theory Spec2Isabelle
  imports Main
begin

section \<open>C strings inside the line buffer\<close>

text \<open>
  The shell of \<^verbatim>\<open>shell.c\<close> keeps one command line in a byte array and hands out
  pointers into it. The array is a \<open>char list\<close>; a \<^verbatim>\<open>char *\<close> into it is
  its index, and \<open>None\<close> is the null pointer. A read that runs off the end of the
  array is undefined behaviour in C and is the value \<open>None\<close> of every function below.
\<close>

abbreviation NUL :: char where
  "NUL \<equiv> CHR 0x00"

abbreviation SPACE :: char where
  "SPACE \<equiv> CHR '' ''"

abbreviation NEWLINE :: char where
  "NEWLINE \<equiv> CHR 0x0A"

definition MAX_ARGS :: nat where
  "MAX_ARGS = 10"

definition MAX_LINE_LENGTH :: nat where
  "MAX_LINE_LENGTH = 256"

type_synonym ptr = "nat option"

text \<open>
  \<^verbatim>\<open>strspn(s, accept)\<close> and \<^verbatim>\<open>strcspn(s, reject)\<close> of the C library, on the
  bytes from \<open>s\<close> to the end of the array. Both stop at the terminating NUL.
\<close>

fun strspn :: "char list \<Rightarrow> string \<Rightarrow> nat option" where
  "strspn [] accept = None"
| "strspn (c # cs) accept =
     (if c \<noteq> NUL \<and> c \<in> set accept then map_option Suc (strspn cs accept) else Some 0)"

fun strcspn :: "char list \<Rightarrow> string \<Rightarrow> nat option" where
  "strcspn [] reject = None"
| "strcspn (c # cs) reject =
     (if c = NUL \<or> c \<in> set reject then Some 0 else map_option Suc (strcspn cs reject))"

text \<open>The text of the C string that starts at index \<open>p\<close>.\<close>

definition cstr :: "char list \<Rightarrow> nat \<Rightarrow> string option" where
  "cstr b p =
     (if NUL \<in> set (drop p b) then Some (takeWhile (\<lambda>c. c \<noteq> NUL) (drop p b)) else None)"

text \<open>
  \<^verbatim>\<open>strtok\<close> of the C library keeps the place where the next call resumes in a
  static pointer, so the memory the tokenizer works on is the array together with
  that pointer.
\<close>

record memory =
  bytes :: "char list"
  strtok_save :: ptr

text \<open>
  \<^verbatim>\<open>strtok(s, delim)\<close>: skip the delimiters at the start, return a null pointer at
  the end of the string, otherwise overwrite the delimiter that ends the token with
  NUL and remember the byte after it.
\<close>

definition strtok :: "ptr \<Rightarrow> string \<Rightarrow> memory \<Rightarrow> (ptr \<times> memory) option" where
  "strtok s delim m =
     (case (case s of None \<Rightarrow> strtok_save m | Some p \<Rightarrow> Some p) of
        None \<Rightarrow> None
      | Some p \<Rightarrow>
          (case strspn (drop p (bytes m)) delim of
             None \<Rightarrow> None
           | Some k \<Rightarrow>
               (let t = p + k in
                if bytes m ! t = NUL then Some (None, m\<lparr>strtok_save := Some t\<rparr>)
                else
                  (case strcspn (drop t (bytes m)) delim of
                     None \<Rightarrow> None
                   | Some j \<Rightarrow>
                       (let e = t + j in
                        if bytes m ! e = NUL
                        then Some (Some t, m\<lparr>strtok_save := Some e\<rparr>)
                        else Some (Some t,
                               m\<lparr>bytes := (bytes m)[e := NUL],
                                 strtok_save := Some (e + 1)\<rparr>))))))"

section \<open>The tokenizer\<close>

text \<open>
  The \<^verbatim>\<open>while\<close> loop of \<^verbatim>\<open>parse_command_line\<close>. \<open>args\<close> is the caller's array of
  \<^verbatim>\<open>char *\<close>; a store outside it is undefined behaviour.
\<close>

function parse_loop :: "ptr \<Rightarrow> nat \<Rightarrow> ptr list \<Rightarrow> memory \<Rightarrow> (nat \<times> ptr list \<times> memory) option" where
  "parse_loop token arg_count args m =
     (if token \<noteq> None \<and> arg_count < MAX_ARGS - 1 then
        (if arg_count < length args then
           (case strtok None '' '' m of
              None \<Rightarrow> None
            | Some (token', m') \<Rightarrow> parse_loop token' (arg_count + 1) (args[arg_count := token]) m')
         else None)
      else Some (arg_count, args, m))"
  by pat_completeness auto
termination
  by (relation "measure (\<lambda>(token, arg_count, args, m). MAX_ARGS - 1 - arg_count)") auto

declare parse_loop.simps [simp del]

definition parse_command_line :: "nat \<Rightarrow> ptr list \<Rightarrow> memory \<Rightarrow> (nat \<times> ptr list \<times> memory) option" where
  "parse_command_line line_buffer args m =
     (case strtok (Some line_buffer) '' '' m of
        None \<Rightarrow> None
      | Some (token, m1) \<Rightarrow>
          (case parse_loop token 0 args m1 of
             None \<Rightarrow> None
           | Some (arg_count, args', m2) \<Rightarrow>
               if arg_count < length args'
               then Some (arg_count, args'[arg_count := None], m2)
               else None))"

text \<open>The text an entry of the argument vector points to; nothing for a null pointer.\<close>

definition arg_text :: "char list \<Rightarrow> ptr \<Rightarrow> string option" where
  "arg_text b a = (case a of None \<Rightarrow> None | Some p \<Rightarrow> cstr b p)"

subsection \<open>What the specification calls the words of a line\<close>

text \<open>
  The pieces of a line between its spaces, and the words: the pieces that are not
  empty.
\<close>

fun split_sp :: "string \<Rightarrow> string list" where
  "split_sp [] = [[]]"
| "split_sp (c # cs) =
     (if c = SPACE then [] # split_sp cs
      else (case split_sp cs of w # ws \<Rightarrow> (c # w) # ws | [] \<Rightarrow> [[c]]))"

definition words_spec :: "string \<Rightarrow> string list" where
  "words_spec s = filter (\<lambda>w. w \<noteq> []) (split_sp s)"

subsection \<open>Words delimited by any whitespace\<close>

text \<open>
  A second reading of "word", taken from the wording "whitespace-delimited" and not
  from the code: the pieces of a line between any of the characters \<^verbatim>\<open>isspace\<close> of
  the C library accepts (space, tab, newline, vertical tab, form feed, carriage
  return), without the empty ones. It is here to be compared with what the
  tokenizer does.
\<close>

abbreviation TAB :: char where
  "TAB \<equiv> CHR 0x09"

definition isspace :: "char \<Rightarrow> bool" where
  "isspace c =
     (c = SPACE \<or> c = TAB \<or> c = NEWLINE \<or> c = CHR 0x0B \<or> c = CHR 0x0C \<or> c = CHR 0x0D)"

fun split_on :: "(char \<Rightarrow> bool) \<Rightarrow> string \<Rightarrow> string list" where
  "split_on d [] = [[]]"
| "split_on d (c # cs) =
     (if d c then [] # split_on d cs
      else (case split_on d cs of w # ws \<Rightarrow> (c # w) # ws | [] \<Rightarrow> [[c]]))"

definition whitespace_words :: "string \<Rightarrow> string list" where
  "whitespace_words s = filter (\<lambda>w. w \<noteq> []) (split_on isspace s)"

section \<open>The line reader\<close>

text \<open>
  Everything the shell does to the outside world is recorded, in order, as an event.
  What the outside world answers is an input of the model: what \<^verbatim>\<open>fgets\<close> finds
  on standard input, and what \<^verbatim>\<open>fork\<close>, \<^verbatim>\<open>execvp\<close> and \<^verbatim>\<open>waitpid\<close> return.
\<close>

datatype event =
    Printf string
  | Fflush
  | Perror string
  | Fork int
  | Execvp string "string list"
  | Waitpid int int int

text \<open>
  One call of \<^verbatim>\<open>fgets\<close> on standard input: either the bytes waiting on the stream,
  or a null result together with what \<^verbatim>\<open>feof(stdin)\<close> says afterwards (true at the
  end of the input, false after a read error).
\<close>

datatype fgets_result = FgetsData "char list" | FgetsNull bool

text \<open>What \<^verbatim>\<open>fgets\<close> transfers: at most \<open>n\<close> bytes, up to and including a newline.\<close>

fun fgets_chunk :: "nat \<Rightarrow> char list \<Rightarrow> char list" where
  "fgets_chunk 0 s = []"
| "fgets_chunk (Suc n) [] = []"
| "fgets_chunk (Suc n) (c # cs) = (if c = NEWLINE then [c] else c # fgets_chunk n cs)"

text \<open>
  \<^verbatim>\<open>fgets(line_buffer, buffer_size, stdin)\<close>: the flag says whether the result is
  the buffer (true) or a null pointer (false). A \<open>buffer_size\<close> larger than the
  array is undefined behaviour.
\<close>

definition fgets :: "char list \<Rightarrow> nat \<Rightarrow> fgets_result \<Rightarrow> (bool \<times> char list) option" where
  "fgets line_buffer buffer_size inp =
     (if buffer_size = 0 \<or> length line_buffer < buffer_size then None
      else
        (case inp of
           FgetsNull e \<Rightarrow> Some (False, line_buffer)
         | FgetsData s \<Rightarrow>
             (let chunk = fgets_chunk (buffer_size - 1) s
              in Some (True, chunk @ [NUL] @ drop (length chunk + 1) line_buffer))))"

fun feof :: "fgets_result \<Rightarrow> bool" where
  "feof (FgetsNull e) = e"
| "feof (FgetsData s) = False"

text \<open>
  \<^verbatim>\<open>read_command_line\<close>: the status it returns, the buffer and the events so far.
\<close>

definition read_command_line ::
  "fgets_result \<Rightarrow> char list \<Rightarrow> nat \<Rightarrow> event list \<Rightarrow> (int \<times> char list \<times> event list) option" where
  "read_command_line inp line_buffer buffer_size tr =
     (let tr1 = tr @ [Printf ''simple_shell> '', Fflush] in
      case fgets line_buffer buffer_size inp of
        None \<Rightarrow> None
      | Some (False, b) \<Rightarrow>
          if feof inp
          then Some (- 1, b, tr1 @ [Printf ''\<newline>Exiting shell...\<newline>''])
          else Some (- 1, b, tr1 @ [Perror ''fgets error''])
      | Some (True, b) \<Rightarrow>
          (case strcspn b ''\<newline>'' of
             None \<Rightarrow> None
           | Some k \<Rightarrow> Some (0, b[k := NUL], tr1)))"

section \<open>Built-in commands and external programs\<close>

definition display_help :: "event list \<Rightarrow> event list" where
  "display_help tr = tr @
     [Printf ''--- Simple Shell Help ---\<newline>'',
      Printf ''Available built-in commands:\<newline>'',
      Printf ''  help   : Display this help message.\<newline>'',
      Printf ''  exit   : Terminate the shell.\<newline>'',
      Printf ''\<newline>'',
      Printf ''Other commands are executed via the system's PATH.\<newline>'',
      Printf ''Examples:\<newline>'',
      Printf ''  ls -l\<newline>'',
      Printf ''  echo Hello World\<newline>'',
      Printf ''-------------------------\<newline>'']"

text \<open>
  How a call ends: it returns to its caller, the process terminates through
  \<^verbatim>\<open>exit\<close> with a status, or \<^verbatim>\<open>execvp\<close> replaces the program.
\<close>

datatype outcome = Returns | Exits int | Replaced

definition EXIT_FAILURE :: int where
  "EXIT_FAILURE = 1"

text \<open>
  The answers of the operating system to one command: the value of \<^verbatim>\<open>fork\<close>, of
  \<^verbatim>\<open>execvp\<close> when it returns at all, and of \<^verbatim>\<open>waitpid\<close>.
\<close>

record os =
  fork_ret :: int
  execvp_ret :: "int option"
  waitpid_ret :: int

text \<open>The strings \<^verbatim>\<open>execvp\<close> reads from the vector, up to the null pointer.\<close>

fun argv :: "char list \<Rightarrow> ptr list \<Rightarrow> string list option" where
  "argv b [] = None"
| "argv b (None # as) = Some []"
| "argv b (Some p # as) =
     (case cstr b p of
        None \<Rightarrow> None
      | Some s \<Rightarrow> map_option ((#) s) (argv b as))"

definition execute_command ::
  "os \<Rightarrow> ptr list \<Rightarrow> char list \<Rightarrow> event list \<Rightarrow> (outcome \<times> event list) option" where
  "execute_command sys args b tr =
     (case args of
        [] \<Rightarrow> None
      | None # _ \<Rightarrow> Some (Returns, tr)
      | Some p # _ \<Rightarrow>
          (case cstr b p of
             None \<Rightarrow> None
           | Some cmd \<Rightarrow>
               if cmd = ''exit'' then Some (Exits 0, tr @ [Printf ''Exiting simple_shell.\<newline>''])
               else if cmd = ''help'' then Some (Returns, display_help tr)
               else
                 (let pid = fork_ret sys; tr1 = tr @ [Fork pid] in
                  if pid = - 1 then Some (Returns, tr1 @ [Perror ''fork error''])
                  else if pid = 0 then
                    (case argv b args of
                       None \<Rightarrow> None
                     | Some av \<Rightarrow>
                         (let tr2 = tr1 @ [Execvp cmd av] in
                          case execvp_ret sys of
                            None \<Rightarrow> Some (Replaced, tr2)
                          | Some r \<Rightarrow>
                              if r = - 1
                              then Some (Exits EXIT_FAILURE, tr2 @ [Perror ''execvp error''])
                              else Some (Returns, tr2)))
                  else
                    (let r = waitpid_ret sys; tr2 = tr1 @ [Waitpid pid 0 r] in
                     if r = - 1 then Some (Returns, tr2 @ [Perror ''waitpid error''])
                     else Some (Returns, tr2)))))"

section \<open>The main loop\<close>

text \<open>
  The outside world of a whole run: what the \<open>i\<close>-th call of \<^verbatim>\<open>fgets\<close> finds and
  what the operating system answers to the \<open>i\<close>-th command.
\<close>

record env =
  stdin :: "nat \<Rightarrow> fgets_result"
  sys_of :: "nat \<Rightarrow> os"

text \<open>
  How a run of the shell ends: \<^verbatim>\<open>main\<close> returns a status, \<^verbatim>\<open>exit\<close> is called,
  the program is replaced, the behaviour is undefined, or the loop is still
  running when the fuel is used up.
\<close>

datatype ending = Return int | Exit int | Exec | Undefined | Unfinished

text \<open>
  The \<^verbatim>\<open>while (1)\<close> loop of \<^verbatim>\<open>main\<close>; the fuel bounds the number of iterations,
  \<open>i\<close> counts them.
\<close>

fun shell_loop ::
  "nat \<Rightarrow> env \<Rightarrow> nat \<Rightarrow> memory \<Rightarrow> ptr list \<Rightarrow> event list \<Rightarrow> ending \<times> event list" where
  "shell_loop 0 e i m args tr = (Unfinished, tr)"
| "shell_loop (Suc fuel) e i m args tr =
     (case read_command_line (stdin e i) (bytes m) MAX_LINE_LENGTH tr of
        None \<Rightarrow> (Undefined, tr)
      | Some (status, b, tr1) \<Rightarrow>
          if status = - 1 then (Return 0, tr1)
          else
            (case parse_command_line 0 args (m\<lparr>bytes := b\<rparr>) of
               None \<Rightarrow> (Undefined, tr1)
             | Some (n, args1, m1) \<Rightarrow>
                 (case execute_command (sys_of e i) args1 (bytes m1) tr1 of
                    None \<Rightarrow> (Undefined, tr1)
                  | Some (Returns, tr2) \<Rightarrow> shell_loop fuel e (Suc i) m1 args1 tr2
                  | Some (Exits c, tr2) \<Rightarrow> (Exit c, tr2)
                  | Some (Replaced, tr2) \<Rightarrow> (Exec, tr2))))"

text \<open>
  \<^verbatim>\<open>main\<close>: its two local arrays start with whatever the stack holds, and so does
  the static pointer of \<^verbatim>\<open>strtok\<close> as far as this program is concerned.
\<close>

definition main :: "nat \<Rightarrow> env \<Rightarrow> char list \<Rightarrow> ptr list \<Rightarrow> ptr \<Rightarrow> ending \<times> event list" where
  "main fuel e line_buffer args save =
     shell_loop fuel e 0 \<lparr>bytes = line_buffer, strtok_save = save\<rparr> args []"

section \<open>What a consumer and an observer see\<close>

text \<open>
  The number of entries of an argument vector before its first null pointer: how
  \<^verbatim>\<open>execvp\<close> and every other consumer finds the end without being told the count.
\<close>

fun argv_count :: "ptr list \<Rightarrow> nat option" where
  "argv_count [] = None"
| "argv_count (None # as) = Some 0"
| "argv_count (Some p # as) = map_option Suc (argv_count as)"

text \<open>
  The line \<^verbatim>\<open>read_command_line\<close> leaves in a buffer of \<^verbatim>\<open>MAX_LINE_LENGTH\<close> bytes
  when the bytes \<open>s\<close> wait on standard input.
\<close>

definition entered_line :: "char list \<Rightarrow> string" where
  "entered_line s =
     takeWhile (\<lambda>c. c \<noteq> NUL \<and> c \<noteq> NEWLINE) (fgets_chunk (MAX_LINE_LENGTH - 1) s)"

text \<open>
  Following the children of the shell along a trace. The state is the child that
  has been spawned and not yet waited for, if any. The result is \<open>None\<close> as soon as
  a child is spawned while another one is outstanding, a wait is not a blocking
  wait (options \<open>0\<close>) for exactly the outstanding child, or the prompt is printed
  while a child is outstanding.
\<close>

fun track :: "int option \<Rightarrow> event list \<Rightarrow> int option option" where
  "track c [] = Some c"
| "track c (Fork pid # es) =
     (if c = None then track (if 0 < pid then Some pid else None) es else None)"
| "track c (Waitpid pid opts r # es) =
     (if c = Some pid \<and> opts = 0 then track None es else None)"
| "track c (Printf s # es) =
     (if s = ''simple_shell> '' \<and> c \<noteq> None then None else track c es)"
| "track c (Fflush # es) = track c es"
| "track c (Perror s # es) = track c es"
| "track c (Execvp f av # es) = track c es"

section \<open>The C library functions on a terminated string\<close>

lemma split_sp_no_space:
  "SPACE \<notin> set s \<Longrightarrow> split_sp (s @ SPACE # r) = s # split_sp r"
  by (induction s) (auto split: list.splits)

lemma split_sp_no_space_end: "SPACE \<notin> set s \<Longrightarrow> split_sp s = [s]"
  by (induction s) (auto split: list.splits)

lemma words_spec_Nil: "words_spec [] = []"
  by (simp add: words_spec_def)

lemma words_spec_space: "words_spec (SPACE # s) = words_spec s"
  by (simp add: words_spec_def)

lemma words_spec_word_end:
  "w \<noteq> [] \<Longrightarrow> SPACE \<notin> set w \<Longrightarrow> words_spec w = [w]"
  by (simp add: words_spec_def split_sp_no_space_end)

lemma words_spec_word:
  "w \<noteq> [] \<Longrightarrow> SPACE \<notin> set w \<Longrightarrow> words_spec (w @ SPACE # r) = w # words_spec r"
  by (simp add: words_spec_def split_sp_no_space)

lemma words_spec_nonempty: "w \<in> set (words_spec s) \<Longrightarrow> w \<noteq> []"
  by (simp add: words_spec_def)

lemma cstr_decomp:
  "NUL \<notin> set w \<Longrightarrow> drop t b = w @ NUL # r \<Longrightarrow> cstr b t = Some w"
  by (auto simp: cstr_def takeWhile_tail)

lemma cstr_nth:
  assumes "t + length w < length b" "b ! (t + length w) = NUL" "NUL \<notin> set w"
    "\<forall>i<length w. b ! (t + i) = w ! i"
  shows "cstr b t = Some w"
proof -
  have "take (length w) (drop t b) = w"
    using assms by (intro nth_equalityI) auto
  moreover have "drop (length w) (drop t b) = NUL # drop (Suc (t + length w)) b"
    using Cons_nth_drop_Suc[of "t + length w" b] assms(1,2) by (simp add: add.commute)
  ultimately have "drop t b = w @ NUL # drop (Suc (t + length w)) b"
    using append_take_drop_id[of "length w" "drop t b"] by simp
  then show ?thesis using assms(3) by (rule cstr_decomp[rotated])
qed

lemma takeWhile_full_length:
  "length (takeWhile P xs) = length xs \<Longrightarrow> x \<in> set xs \<Longrightarrow> P x"
  by (induction xs) (auto split: if_splits)

lemma cstr_SomeD:
  assumes "cstr b t = Some w"
  shows "t + length w < length b \<and> b ! (t + length w) = NUL \<and> NUL \<notin> set w \<and>
    (\<forall>i<length w. b ! (t + i) = w ! i)"
proof -
  let ?d = "drop t b"
  from assms have n: "NUL \<in> set ?d" and w: "w = takeWhile (\<lambda>c. c \<noteq> NUL) ?d"
    by (auto simp: cstr_def split: if_splits)
  have "length w \<noteq> length ?d"
    unfolding w using n takeWhile_full_length[of "\<lambda>c. c \<noteq> NUL" ?d NUL] by auto
  moreover have "length w \<le> length ?d"
    unfolding w by (rule length_takeWhile_le)
  ultimately have lt: "length w < length ?d" by simp
  have "\<not> (?d ! length w \<noteq> NUL)"
    unfolding w using lt[unfolded w] by (rule nth_length_takeWhile)
  moreover have "\<forall>i<length w. ?d ! i = w ! i"
    unfolding w by (simp add: takeWhile_nth)
  moreover have "NUL \<notin> set w"
    unfolding w by (auto dest: set_takeWhileD)
  ultimately show ?thesis using lt by (auto simp: add.commute)
qed

lemma cstr_frame:
  assumes "cstr b t = Some w" "t + length w \<le> q" "take q b' = take q b"
    "length b' = length b" "\<forall>i<length b. b ! i = NUL \<longrightarrow> b' ! i = NUL"
  shows "cstr b' t = Some w"
proof -
  from cstr_SomeD[OF assms(1)] have
    a: "t + length w < length b" "b ! (t + length w) = NUL" "NUL \<notin> set w"
    "\<forall>i<length w. b ! (t + i) = w ! i" by auto
  have "b' ! (t + i) = b ! (t + i)" if "i < length w" for i
  proof -
    have "t + i < q" using that assms(2) by simp
    then have "take q b' ! (t + i) = take q b ! (t + i)" by (simp only: assms(3))
    with \<open>t + i < q\<close> show ?thesis by simp
  qed
  then show ?thesis
    using a assms(4,5) by (intro cstr_nth) auto
qed

lemma cstr_iff:
  "cstr b q = Some s \<longleftrightarrow> NUL \<notin> set s \<and> (\<exists>r. drop q b = s @ NUL # r)"
proof
  assume a: "cstr b q = Some s"
  from cstr_SomeD[OF a] have
    l: "q + length s < length b" and n: "b ! (q + length s) = NUL" and z: "NUL \<notin> set s"
    and e: "\<forall>i<length s. b ! (q + i) = s ! i" by auto
  have "take (length s) (drop q b) = s"
    using l e by (intro nth_equalityI) auto
  moreover have "drop (length s) (drop q b) = NUL # drop (Suc (q + length s)) b"
    using Cons_nth_drop_Suc[of "q + length s" b] l n by (simp add: add.commute)
  ultimately have "drop q b = s @ NUL # drop (Suc (q + length s)) b"
    using append_take_drop_id[of "length s" "drop q b"] by simp
  with z show "NUL \<notin> set s \<and> (\<exists>r. drop q b = s @ NUL # r)" by blast
next
  assume "NUL \<notin> set s \<and> (\<exists>r. drop q b = s @ NUL # r)"
  then show "cstr b q = Some s" by (auto intro: cstr_decomp)
qed

lemma strspn_spaces:
  "c \<noteq> SPACE \<Longrightarrow> strspn (replicate k SPACE @ c # r) '' '' = Some k"
  by (induction k) auto

lemma strcspn_word:
  "NUL \<notin> set w \<Longrightarrow> SPACE \<notin> set w \<Longrightarrow> c = NUL \<or> c = SPACE \<Longrightarrow>
   strcspn (w @ c # r) '' '' = Some (length w)"
  by (induction w) auto

lemma words_spec_replicate: "words_spec (replicate k SPACE @ r) = words_spec r"
  by (induction k) (auto simp: words_spec_space)

text \<open>Every line is spaces only, or spaces and a last word, or spaces, a word, a space and more.\<close>

lemma line_shape:
  obtains (blank) k where "s = replicate k SPACE"
  | (last) k w where "s = replicate k SPACE @ w" "w \<noteq> []" "SPACE \<notin> set w"
  | (more) k w s' where "s = replicate k SPACE @ w @ SPACE # s'" "w \<noteq> []" "SPACE \<notin> set w"
proof -
  define a where "a = takeWhile (\<lambda>c. c = SPACE) s"
  define s1 where "s1 = dropWhile (\<lambda>c. c = SPACE) s"
  define w where "w = takeWhile (\<lambda>c. c \<noteq> SPACE) s1"
  define s2 where "s2 = dropWhile (\<lambda>c. c \<noteq> SPACE) s1"
  have a: "a = replicate (length a) SPACE"
    unfolding a_def by (intro replicate_eqI) (auto dest: set_takeWhileD)
  have s: "s = a @ s1" by (simp add: a_def s1_def)
  have s1: "s1 = w @ s2" by (simp add: w_def s2_def)
  have w: "SPACE \<notin> set w" unfolding w_def by (auto dest: set_takeWhileD)
  show thesis
  proof (cases "s1 = []")
    case True
    then have "s = replicate (length a) SPACE" using a s by simp
    then show thesis by (rule blank)
  next
    case False
    then have "hd s1 \<noteq> SPACE"
      unfolding s1_def using hd_dropWhile[of "\<lambda>c. c = SPACE" s] by simp
    with False have wne: "w \<noteq> []" unfolding w_def by (cases s1) auto
    show thesis
    proof (cases s2)
      case Nil
      then have "s = replicate (length a) SPACE @ w" using a s s1 by simp
      then show thesis using wne w by (rule last)
    next
      case (Cons c s3)
      then have "c = SPACE"
        using hd_dropWhile[of "\<lambda>c. c \<noteq> SPACE" s1] by (simp add: s2_def)
      with Cons have "s = replicate (length a) SPACE @ w @ SPACE # s3" using a s s1 by simp
      then show thesis using wne w by (rule more)
    qed
  qed
qed

lemma drop_nth_0: "drop q b = c # r \<Longrightarrow> b ! q = c"
  by (metis nth_via_drop)

lemma drop_app_nth: "drop q b = xs @ c # r \<Longrightarrow> b ! (q + length xs) = c"
proof -
  assume a: "drop q b = xs @ c # r"
  have "drop (q + length xs) b = drop (length xs) (drop q b)" by (simp add: add.commute)
  also have "\<dots> = c # r" using a by simp
  finally show ?thesis by (rule drop_nth_0)
qed

lemma drop_app_drop: "drop q b = xs @ ys \<Longrightarrow> drop (q + length xs) b = ys"
proof -
  assume a: "drop q b = xs @ ys"
  have "drop (q + length xs) b = drop (length xs) (drop q b)" by (simp add: add.commute)
  then show ?thesis using a by simp
qed

lemma hd_notin: "w \<noteq> [] \<Longrightarrow> c \<notin> set w \<Longrightarrow> hd w \<noteq> c"
  by (cases w) auto

lemma strtok_end:
  assumes src: "(case src of None \<Rightarrow> strtok_save m | Some p \<Rightarrow> Some p) = Some q"
    and s: "cstr (bytes m) q = Some s" and ws: "words_spec s = []"
  shows "strtok src '' '' m = Some (None, m\<lparr>strtok_save := Some (q + length s)\<rparr>)"
proof -
  from s obtain r where z: "NUL \<notin> set s" and d: "drop q (bytes m) = s @ NUL # r"
    by (auto simp: cstr_iff)
  show ?thesis
  proof (cases s rule: line_shape)
    case (blank k)
    have "strspn (drop q (bytes m)) '' '' = Some k"
      using d blank by (simp add: strspn_spaces)
    moreover have "bytes m ! (q + k) = NUL"
      using drop_app_nth[OF d] blank by simp
    ultimately show ?thesis using src blank by (simp add: strtok_def)
  next
    case (last k w)
    then have "words_spec s = [w]" by (simp add: words_spec_replicate words_spec_word_end)
    with ws show ?thesis by simp
  next
    case (more k w s')
    then have "words_spec s = w # words_spec s'"
      by (simp add: words_spec_replicate words_spec_word)
    with ws show ?thesis by simp
  qed
qed

lemma strtok_word:
  assumes src: "(case src of None \<Rightarrow> strtok_save m | Some p \<Rightarrow> Some p) = Some q"
    and s: "cstr (bytes m) q = Some s" and ws: "words_spec s = w # ws"
  shows "\<exists>t m' q' s'. strtok src '' '' m = Some (Some t, m') \<and> q \<le> t \<and>
    cstr (bytes m') t = Some w \<and> t + length w \<le> q' \<and>
    strtok_save m' = Some q' \<and> cstr (bytes m') q' = Some s' \<and> words_spec s' = ws \<and>
    take q (bytes m') = take q (bytes m) \<and> length (bytes m') = length (bytes m) \<and>
    (\<forall>i<length (bytes m). bytes m ! i = NUL \<longrightarrow> bytes m' ! i = NUL)"
proof -
  from s obtain r where z: "NUL \<notin> set s" and d: "drop q (bytes m) = s @ NUL # r"
    by (auto simp: cstr_iff)
  show ?thesis
  proof (cases s rule: line_shape)
    case (blank k)
    then have "words_spec s = []"
      using words_spec_replicate[of k "[]"] by (simp add: words_spec_Nil)
    with ws show ?thesis by simp
  next
    case (last k v)
    then have "words_spec s = [v]" by (simp add: words_spec_replicate words_spec_word_end)
    with ws have v: "v = w" "ws = []" by auto
    have zw: "NUL \<notin> set w" using z last v by simp
    have d1: "drop q (bytes m) = replicate k SPACE @ w @ NUL # r" using d last v by simp
    have hw: "hd w \<noteq> SPACE" "w = hd w # tl w" "hd w \<noteq> NUL"
      using last v zw hd_notin[of w SPACE] hd_notin[of w NUL] by auto
    have "drop q (bytes m) = replicate k SPACE @ hd w # (tl w @ NUL # r)"
      using d1 hw(2) by (metis append_Cons)
    then have sp: "strspn (drop q (bytes m)) '' '' = Some k"
      using hw(1) by (simp add: strspn_spaces)
    have d2: "drop (q + k) (bytes m) = w @ NUL # r"
      using drop_app_drop[OF d1] by simp
    have n1: "bytes m ! (q + k) \<noteq> NUL"
      using drop_nth_0[of "q + k" "bytes m" "hd w" "tl w @ NUL # r"] d2 hw
      by (metis append_Cons)
    have cs: "strcspn (drop (q + k) (bytes m)) '' '' = Some (length w)"
      using d2 zw last v by (simp add: strcspn_word)
    have n2: "bytes m ! (q + k + length w) = NUL"
      using drop_app_nth[OF d2] by simp
    have r: "strtok src '' '' m = Some (Some (q + k), m\<lparr>strtok_save := Some (q + k + length w)\<rparr>)"
      using src sp n1 cs n2 by (simp add: strtok_def Let_def)
    have c1: "cstr (bytes m) (q + k) = Some w"
      using d2 zw by (auto simp: cstr_iff)
    have c2: "cstr (bytes m) (q + k + length w) = Some []"
      using drop_app_drop[OF d2] by (auto simp: cstr_iff)
    show ?thesis
      using r c1 c2 v by (simp add: words_spec_Nil)
  next
    case (more k v s')
    then have "words_spec s = v # words_spec s'"
      by (simp add: words_spec_replicate words_spec_word)
    with ws have v: "v = w" "ws = words_spec s'" by auto
    have zw: "NUL \<notin> set w" "NUL \<notin> set s'" using z more v by auto
    have d1: "drop q (bytes m) = replicate k SPACE @ w @ SPACE # s' @ NUL # r"
      using d more v by simp
    have hw: "hd w \<noteq> SPACE" "w = hd w # tl w" "hd w \<noteq> NUL"
      using more v zw hd_notin[of w SPACE] hd_notin[of w NUL] by auto
    have "drop q (bytes m) = replicate k SPACE @ hd w # (tl w @ SPACE # s' @ NUL # r)"
      using d1 hw(2) by (metis append_Cons)
    then have sp: "strspn (drop q (bytes m)) '' '' = Some k"
      using hw(1) by (simp add: strspn_spaces)
    have d2: "drop (q + k) (bytes m) = w @ SPACE # s' @ NUL # r"
      using drop_app_drop[OF d1] by simp
    have n1: "bytes m ! (q + k) \<noteq> NUL"
      using drop_nth_0[of "q + k" "bytes m" "hd w" "tl w @ SPACE # s' @ NUL # r"] d2 hw
      by (metis append_Cons)
    have cs: "strcspn (drop (q + k) (bytes m)) '' '' = Some (length w)"
      using d2 zw more v by (simp add: strcspn_word)
    have n2: "bytes m ! (q + k + length w) = SPACE"
      using drop_app_nth[OF d2] by simp
    let ?e = "q + k + length w"
    let ?m' = "m\<lparr>bytes := (bytes m)[?e := NUL], strtok_save := Some (?e + 1)\<rparr>"
    have r: "strtok src '' '' m = Some (Some (q + k), ?m')"
      using src sp n1 cs n2 by (simp add: strtok_def Let_def)
    have le: "?e < length (bytes m)"
      using arg_cong[where f = length, OF d2] by simp
    have b: "bytes m = take (q + k) (bytes m) @ w @ SPACE # s' @ NUL # r"
      using d2 append_take_drop_id[of "q + k" "bytes m"] by simp
    have lt: "length (take (q + k) (bytes m)) = q + k" using le by simp
    have "(bytes m)[?e := NUL] = (take (q + k) (bytes m) @ w @ SPACE # s' @ NUL # r)[?e := NUL]"
      using b by simp
    also have "\<dots> = take (q + k) (bytes m) @ w @ NUL # s' @ NUL # r"
      using lt by (simp add: list_update_append)
    finally have b': "bytes ?m' = take (q + k) (bytes m) @ w @ NUL # s' @ NUL # r" by simp
    have d3: "drop (q + k) (bytes ?m') = w @ NUL # (s' @ NUL # r)"
      using b' lt by (metis append_eq_conv_conj)
    have c1: "cstr (bytes ?m') (q + k) = Some w"
      using d3 zw unfolding cstr_iff by blast
    have "drop (q + k + length (w @ [NUL])) (bytes ?m') = s' @ NUL # r"
      using drop_app_drop[of "q + k" "bytes ?m'" "w @ [NUL]" "s' @ NUL # r"] d3 by simp
    then have c2: "cstr (bytes ?m') (?e + 1) = Some s'"
      using zw unfolding cstr_iff by (auto simp: add.assoc)
    have f: "\<forall>i<length (bytes m). bytes m ! i = NUL \<longrightarrow> bytes ?m' ! i = NUL"
      using le by (auto simp: nth_list_update)
    show ?thesis
      using r c1 c2 v f by simp
  qed
qed

section \<open>The tokenizer returns the words of the line\<close>

lemma parse_loop_stop:
  "token = None \<or> \<not> arg_count < MAX_ARGS - 1 \<Longrightarrow>
   parse_loop token arg_count args m = Some (arg_count, args, m)"
  by (subst parse_loop.simps) auto

lemma parse_loop_step:
  "arg_count < MAX_ARGS - 1 \<Longrightarrow> arg_count < length args \<Longrightarrow>
   strtok None '' '' m = Some (token', m') \<Longrightarrow>
   parse_loop (Some t) arg_count args m =
   parse_loop token' (Suc arg_count) (args[arg_count := Some t]) m'"
  by (subst parse_loop.simps) simp

lemma take_le_eq: "take q' a = take q' b \<Longrightarrow> q \<le> q' \<Longrightarrow> take q a = take q b"
  by (metis min.absorb1 take_take)

lemma parse_loop_correct:
  assumes "strtok_save m = Some q" "cstr (bytes m) q = Some s" "words_spec s = ws"
    "cstr (bytes m) t = Some w" "t + length w \<le> q" "count < MAX_ARGS - 1"
    "MAX_ARGS \<le> length args"
  shows "\<exists>n args' m'. parse_loop (Some t) count args m = Some (n, args', m') \<and>
     n = min (MAX_ARGS - 1) (Suc count + length ws) \<and> length args' = length args \<and>
     (\<forall>i<count. args' ! i = args ! i) \<and> (\<forall>i\<ge>n. args' ! i = args ! i) \<and>
     (\<forall>j. count \<le> j \<and> j < n \<longrightarrow>
        arg_text (bytes m') (args' ! j) = Some ((w # ws) ! (j - count))) \<and>
     take q (bytes m') = take q (bytes m) \<and> length (bytes m') = length (bytes m) \<and>
     (\<forall>i<length (bytes m). bytes m ! i = NUL \<longrightarrow> bytes m' ! i = NUL)"
  using assms
proof (induction ws arbitrary: m q s t w count args)
  case Nil
  have cl: "count < length args" using Nil.prems(6,7) by simp
  have st: "strtok None '' '' m = Some (None, m\<lparr>strtok_save := Some (q + length s)\<rparr>)"
    using strtok_end[where src=None and m=m and q=q and s=s] Nil.prems by simp
  have r: "parse_loop (Some t) count args m =
      Some (Suc count, args[count := Some t], m\<lparr>strtok_save := Some (q + length s)\<rparr>)"
    using parse_loop_step[OF Nil.prems(6) cl st] by (simp add: parse_loop_stop)
  have n: "min (MAX_ARGS - 1) (Suc count + length ([]::string list)) = Suc count"
    using Nil.prems(6) by simp
  have tx: "arg_text (bytes m) (args[count := Some t] ! count) = Some w"
    using cl Nil.prems(4) by (simp add: arg_text_def)
  show ?case
    unfolding r n using tx cl by (auto simp: le_less_Suc_eq)
next
  case (Cons w' ws')
  have cl: "count < length args" using Cons.prems(6,7) by simp
  from strtok_word[where src=None and m=m and q=q and s=s and w="w'" and ws="ws'"] Cons.prems(1,2,3)
  obtain t' m1 q' s' where st: "strtok None '' '' m = Some (Some t', m1)"
    and qt: "q \<le> t'" and c': "cstr (bytes m1) t' = Some w'" and tq: "t' + length w' \<le> q'"
    and sv: "strtok_save m1 = Some q'" and cs: "cstr (bytes m1) q' = Some s'"
    and ws: "words_spec s' = ws'" and f1: "take q (bytes m1) = take q (bytes m)"
    and l1: "length (bytes m1) = length (bytes m)"
    and z1: "\<forall>i<length (bytes m). bytes m ! i = NUL \<longrightarrow> bytes m1 ! i = NUL"
    by auto
  have step: "parse_loop (Some t) count args m =
      parse_loop (Some t') (Suc count) (args[count := Some t]) m1"
    by (rule parse_loop_step[OF Cons.prems(6) cl st])
  have qq: "q \<le> q'" using qt tq by simp
  have c1: "cstr (bytes m1) t = Some w"
    by (rule cstr_frame[OF Cons.prems(4,5) f1 l1 z1])
  show ?case
  proof (cases "Suc count < MAX_ARGS - 1")
    case False
    then have r: "parse_loop (Some t) count args m = Some (Suc count, args[count := Some t], m1)"
      unfolding step by (simp add: parse_loop_stop)
    have n: "min (MAX_ARGS - 1) (Suc count + length (w' # ws')) = Suc count"
      using False Cons.prems(6) by simp
    have tx: "arg_text (bytes m1) (args[count := Some t] ! count) = Some w"
      using cl c1 by (simp add: arg_text_def)
    show ?thesis
      unfolding r n using tx cl f1 l1 z1 by (auto simp: le_less_Suc_eq)
  next
    case True
    have la: "MAX_ARGS \<le> length (args[count := Some t])" using Cons.prems(7) by simp
    from Cons.IH[OF sv cs ws c' tq True la]
    obtain n args' m' where
      r: "parse_loop (Some t') (Suc count) (args[count := Some t]) m1 = Some (n, args', m')"
      and n: "n = min (MAX_ARGS - 1) (Suc (Suc count) + length ws')"
      and la': "length args' = length (args[count := Some t])"
      and lo: "\<forall>i<Suc count. args' ! i = args[count := Some t] ! i"
      and hi: "\<forall>i\<ge>n. args' ! i = args[count := Some t] ! i"
      and tx: "\<forall>j. Suc count \<le> j \<and> j < n \<longrightarrow>
          arg_text (bytes m') (args' ! j) = Some ((w' # ws') ! (j - Suc count))"
      and f2: "take q' (bytes m') = take q' (bytes m1)"
      and l2: "length (bytes m') = length (bytes m1)"
      and z2: "\<forall>i<length (bytes m1). bytes m1 ! i = NUL \<longrightarrow> bytes m' ! i = NUL"
      by blast
    have cn: "Suc count < n" using n True by simp
    have c2: "cstr (bytes m') t = Some w"
      using cstr_frame[OF c1 _ f2 l2 z2] Cons.prems(5) qq by simp
    have a0: "args' ! count = Some t" using lo cl by simp
    have tx0: "arg_text (bytes m') (args' ! count) = Some w"
      using a0 c2 by (simp add: arg_text_def)
    have txs: "arg_text (bytes m') (args' ! j) = Some ((w # w' # ws') ! (j - count))"
      if "count \<le> j" "j < n" for j
    proof (cases "j = count")
      case True
      then show ?thesis using tx0 by simp
    next
      case False
      then have "Suc count \<le> j" using that by simp
      moreover from this have "j - count = Suc (j - Suc count)" by simp
      ultimately show ?thesis using tx that by simp
    qed
    have f: "take q (bytes m') = take q (bytes m)"
      using take_le_eq[OF f2 qq] f1 by simp
    have z: "\<forall>i<length (bytes m). bytes m ! i = NUL \<longrightarrow> bytes m' ! i = NUL"
      using z1 z2 l1 by simp
    have lo': "\<forall>i<count. args' ! i = args ! i" using lo by simp
    have hi': "\<forall>i\<ge>n. args' ! i = args ! i" using hi cn by simp
    have n': "n = min (MAX_ARGS - 1) (Suc count + length (w' # ws'))" using n by simp
    show ?thesis
      unfolding step r using n' la' lo' hi' txs f z l1 l2 by simp
  qed
qed

lemma parse_command_line_correct:
  assumes c: "cstr (bytes m) p = Some line" and la: "MAX_ARGS \<le> length args"
  shows "\<exists>n args' m'. parse_command_line p args m = Some (n, args', m') \<and>
     n = min (MAX_ARGS - 1) (length (words_spec line)) \<and> length args' = length args \<and>
     args' ! n = None \<and> (\<forall>i>n. args' ! i = args ! i) \<and>
     (\<forall>j<n. arg_text (bytes m') (args' ! j) = Some (words_spec line ! j)) \<and>
     take p (bytes m') = take p (bytes m) \<and> length (bytes m') = length (bytes m)"
proof (cases "words_spec line")
  case Nil
  have src: "(case Some p of None \<Rightarrow> strtok_save m | Some p \<Rightarrow> Some p) = Some p" by simp
  have st: "strtok (Some p) '' '' m = Some (None, m\<lparr>strtok_save := Some (p + length line)\<rparr>)"
    by (rule strtok_end[OF src c Nil])
  have l0: "0 < length args" using la by (cases args) (simp_all add: MAX_ARGS_def)
  have pl: "parse_loop None 0 args (m\<lparr>strtok_save := Some (p + length line)\<rparr>) =
      Some (0, args, m\<lparr>strtok_save := Some (p + length line)\<rparr>)"
    by (rule parse_loop_stop) simp
  have res: "parse_command_line p args m =
      Some (0, args[0 := None], m\<lparr>strtok_save := Some (p + length line)\<rparr>)"
    using l0 by (simp add: parse_command_line_def st pl)
  show ?thesis
    unfolding res using l0 Nil by simp
next
  case (Cons w ws)
  have src: "(case Some p of None \<Rightarrow> strtok_save m | Some p \<Rightarrow> Some p) = Some p" by simp
  from strtok_word[OF src c Cons]
  obtain t m1 q' s' where st: "strtok (Some p) '' '' m = Some (Some t, m1)"
    and pt: "p \<le> t" and c': "cstr (bytes m1) t = Some w" and tq: "t + length w \<le> q'"
    and sv: "strtok_save m1 = Some q'" and cs: "cstr (bytes m1) q' = Some s'"
    and ws: "words_spec s' = ws" and f1: "take p (bytes m1) = take p (bytes m)"
    and l1: "length (bytes m1) = length (bytes m)"
    by blast
  have c0: "0 < MAX_ARGS - 1" by (simp add: MAX_ARGS_def)
  from parse_loop_correct[OF sv cs ws c' tq c0 la]
  obtain n args' m' where
    r: "parse_loop (Some t) 0 args m1 = Some (n, args', m')"
    and n: "n = min (MAX_ARGS - 1) (Suc 0 + length ws)"
    and la': "length args' = length args"
    and hi: "\<forall>i\<ge>n. args' ! i = args ! i"
    and tx: "\<forall>j. 0 \<le> j \<and> j < n \<longrightarrow> arg_text (bytes m') (args' ! j) = Some ((w # ws) ! (j - 0))"
    and f2: "take q' (bytes m') = take q' (bytes m1)"
    and l2: "length (bytes m') = length (bytes m1)"
    by (elim exE conjE) (rule that; assumption)
  have nl: "n < length args'" using n la la' by (simp add: MAX_ARGS_def)
  have pq: "p \<le> q'" using pt tq by simp
  have f: "take p (bytes m') = take p (bytes m)"
    using take_le_eq[OF f2 pq] f1 by simp
  have res: "parse_command_line p args m = Some (n, args'[n := None], m')"
    using st r nl by (simp add: parse_command_line_def)
  have n': "n = min (MAX_ARGS - 1) (length (words_spec line))" using n Cons by simp
  have a1: "length (args'[n := None]) = length args" using la' by simp
  have a2: "args'[n := None] ! n = None" using nl by simp
  have a3: "\<forall>i>n. args'[n := None] ! i = args ! i" using hi by simp
  have a4: "\<forall>j<n. arg_text (bytes m') (args'[n := None] ! j) = Some (words_spec line ! j)"
    using tx Cons by simp
  have a5: "length (bytes m') = length (bytes m)" using l1 l2 by simp
  show ?thesis
    unfolding res
    by (intro exI[of _ n] exI[of _ "args'[n := None]"] exI[of _ m'] conjI refl n' a1 a2 a3 a4 f a5)
qed

lemma argv_count_eq:
  "n < length args \<Longrightarrow> args ! n = None \<Longrightarrow> \<forall>i<n. args ! i \<noteq> None \<Longrightarrow> argv_count args = Some n"
proof (induction args arbitrary: n)
  case Nil
  then show ?case by simp
next
  case (Cons a as)
  show ?case
  proof (cases n)
    case 0
    then show ?thesis using Cons.prems by simp
  next
    case (Suc k)
    have "a \<noteq> None" using Cons.prems(3) Suc by auto
    then obtain p where a: "a = Some p" by auto
    have "argv_count as = Some k"
      using Cons.prems Suc by (intro Cons.IH) auto
    then show ?thesis using a Suc by simp
  qed
qed

lemma arg_text_SomeD: "arg_text b a = Some tx \<Longrightarrow> \<exists>p. a = Some p \<and> cstr b p = Some tx"
  by (cases a) (auto simp: arg_text_def)

section \<open>The claims about the tokenizer\<close>

text \<open>
  C1. Whenever the buffer holds, as a terminated string, a line of \<open>N\<close> words
  separated by spaces with \<open>N \<le> 9\<close>, \<^verbatim>\<open>parse_command_line\<close> returns \<open>N\<close>, the first
  \<open>N\<close> entries of the vector point to texts that are exactly the words of the line,
  in order, and entry \<open>N\<close> is the null pointer. This holds for a line of any
  length, so in particular for one under the limit of \<^verbatim>\<open>MAX_LINE_LENGTH\<close>.
\<close>
theorem parse_command_line_words:
  assumes "cstr (bytes m) line_buffer = Some line"
    and "length (words_spec line) \<le> MAX_ARGS - 1"
    and "MAX_ARGS \<le> length args"
  shows "\<exists>args' m'. parse_command_line line_buffer args m =
      Some (length (words_spec line), args', m') \<and>
    map (arg_text (bytes m')) (take (length (words_spec line)) args') =
      map Some (words_spec line) \<and>
    args' ! length (words_spec line) = None"
proof -
  let ?n = "length (words_spec line)"
  from parse_command_line_correct[OF assms(1,3)]
  obtain n args' m' where r: "parse_command_line line_buffer args m = Some (n, args', m')"
    and n: "n = min (MAX_ARGS - 1) ?n" and la: "length args' = length args"
    and z: "args' ! n = None"
    and tx: "\<forall>j<n. arg_text (bytes m') (args' ! j) = Some (words_spec line ! j)"
    by (elim exE conjE) (rule that; assumption)
  have n': "n = ?n" using n assms(2) by simp
  have ln: "?n \<le> length args'" using la assms(2,3) by simp
  have "map (arg_text (bytes m')) (take ?n args') = map Some (words_spec line)"
    using tx ln n' by (intro nth_equalityI) auto
  then show ?thesis using r z n' by simp
qed

theorem parse_command_line_words_witness:
  "cstr (bytes \<lparr>bytes = ''ls -l /tmp'' @ [NUL], strtok_save = None\<rparr>) 0 = Some ''ls -l /tmp'' \<and>
   length (words_spec ''ls -l /tmp'') \<le> MAX_ARGS - 1 \<and>
   MAX_ARGS \<le> length (replicate 10 (None :: ptr)) \<and>
   words_spec ''ls -l /tmp'' = [''ls'', ''-l'', ''/tmp''] \<and>
   (\<exists>args' m'. parse_command_line 0 (replicate 10 None)
        \<lparr>bytes = ''ls -l /tmp'' @ [NUL], strtok_save = None\<rparr> = Some (3, args', m') \<and>
      map (arg_text (bytes m')) (take 3 args') = [Some ''ls'', Some ''-l'', Some ''/tmp''] \<and>
      args' ! 3 = None)"
proof -
  have w: "words_spec ''ls -l /tmp'' = [''ls'', ''-l'', ''/tmp'']"
    by (simp add: words_spec_def)
  have h1: "cstr (bytes \<lparr>bytes = ''ls -l /tmp'' @ [NUL], strtok_save = None\<rparr>) 0 = Some ''ls -l /tmp''"
    by (simp add: cstr_def)
  have h2: "length (words_spec ''ls -l /tmp'') \<le> MAX_ARGS - 1"
    by (simp add: w MAX_ARGS_def)
  have h3: "MAX_ARGS \<le> length (replicate 10 (None :: ptr))"
    by (simp add: MAX_ARGS_def)
  show ?thesis
    using parse_command_line_words[OF h1 h2 h3] h1 h2 h3 w by (simp add: numeral_3_eq_3)
qed

lemma argv_eq:
  "n < length args \<Longrightarrow> args ! n = None \<Longrightarrow>
   map (arg_text b) (take n args) = map Some ws \<Longrightarrow> argv b args = Some ws"
proof (induction args arbitrary: n ws)
  case Nil
  then show ?case by simp
next
  case (Cons a as)
  show ?case
  proof (cases n)
    case 0
    then show ?thesis using Cons.prems by simp
  next
    case (Suc k)
    from Cons.prems(3) Suc obtain w ws' where ws: "ws = w # ws'"
      and a: "arg_text b a = Some w" and m: "map (arg_text b) (take k as) = map Some ws'"
      by (cases ws) auto
    from arg_text_SomeD[OF a] obtain p where p: "a = Some p" "cstr b p = Some w" by auto
    have "argv b as = Some ws'"
      using Cons.prems(1,2) Suc m by (intro Cons.IH[of k]) auto
    then show ?thesis using p ws by simp
  qed
qed

text \<open>
  C3, as amended. The only delimiter \<^verbatim>\<open>parse_command_line\<close> gives \<^verbatim>\<open>strtok\<close> is the
  space character, so a word is a maximal run of characters other than the space;
  a tab or any other whitespace is part of a word. Whenever the line has more than
  9 such space-delimited words, \<^verbatim>\<open>parse_command_line\<close> returns 9, the vector holds
  exactly the first 9 of them followed by the null pointer, and that is all
  \<^verbatim>\<open>execvp\<close> would read from it. The call succeeds: the words beyond the ninth are
  dropped and nothing reports them.
\<close>
theorem parse_command_line_excess:
  assumes "cstr (bytes m) line_buffer = Some line"
    and "MAX_ARGS - 1 < length (words_spec line)"
    and "MAX_ARGS \<le> length args"
  shows "\<exists>args' m'. parse_command_line line_buffer args m = Some (9, args', m') \<and>
    map (arg_text (bytes m')) (take 9 args') = map Some (take 9 (words_spec line)) \<and>
    args' ! 9 = None \<and> argv (bytes m') args' = Some (take 9 (words_spec line))"
proof -
  from parse_command_line_correct[OF assms(1,3)]
  obtain n args' m' where r: "parse_command_line line_buffer args m = Some (n, args', m')"
    and n: "n = min (MAX_ARGS - 1) (length (words_spec line))"
    and la: "length args' = length args"
    and z: "args' ! n = None"
    and tx: "\<forall>j<n. arg_text (bytes m') (args' ! j) = Some (words_spec line ! j)"
    by (elim exE conjE) (rule that; assumption)
  have n': "n = 9" using n assms(2) by (simp add: MAX_ARGS_def)
  have ln: "9 < length args'" using la assms(3) by (simp add: MAX_ARGS_def)
  have lw: "9 < length (words_spec line)" using assms(2) by (simp add: MAX_ARGS_def)
  have mp: "map (arg_text (bytes m')) (take 9 args') = map Some (take 9 (words_spec line))"
    using tx ln lw n' by (intro nth_equalityI) auto
  have av: "argv (bytes m') args' = Some (take 9 (words_spec line))"
    using argv_eq[of 9 args' "bytes m'" "take 9 (words_spec line)"] ln z mp n' by simp
  show ?thesis using r z n' mp av by simp
qed

theorem parse_command_line_excess_witness:
  "cstr (bytes \<lparr>bytes = ''a b c d e f g h i j k'' @ [NUL], strtok_save = None\<rparr>) 0 =
     Some ''a b c d e f g h i j k'' \<and>
   MAX_ARGS - 1 < length (words_spec ''a b c d e f g h i j k'') \<and>
   MAX_ARGS \<le> length (replicate 10 (None :: ptr)) \<and>
   (\<exists>args' m'. parse_command_line 0 (replicate 10 None)
        \<lparr>bytes = ''a b c d e f g h i j k'' @ [NUL], strtok_save = None\<rparr> = Some (9, args', m') \<and>
      map (arg_text (bytes m')) (take 9 args') =
        map Some [''a'', ''b'', ''c'', ''d'', ''e'', ''f'', ''g'', ''h'', ''i''] \<and>
      args' ! 9 = None \<and>
      argv (bytes m') args' = Some [''a'', ''b'', ''c'', ''d'', ''e'', ''f'', ''g'', ''h'', ''i''])"
proof -
  have w: "words_spec ''a b c d e f g h i j k'' =
      [''a'', ''b'', ''c'', ''d'', ''e'', ''f'', ''g'', ''h'', ''i'', ''j'', ''k'']"
    by (simp add: words_spec_def)
  have h1: "cstr (bytes \<lparr>bytes = ''a b c d e f g h i j k'' @ [NUL], strtok_save = None\<rparr>) 0 =
      Some ''a b c d e f g h i j k''"
    by (simp add: cstr_def)
  have h2: "MAX_ARGS - 1 < length (words_spec ''a b c d e f g h i j k'')"
    by (simp add: w MAX_ARGS_def)
  have h3: "MAX_ARGS \<le> length (replicate 10 (None :: ptr))"
    by (simp add: MAX_ARGS_def)
  have t: "take 9 (words_spec ''a b c d e f g h i j k'') =
      [''a'', ''b'', ''c'', ''d'', ''e'', ''f'', ''g'', ''h'', ''i'']"
    unfolding w by code_simp
  show ?thesis
    using parse_command_line_excess[OF h1 h2 h3] h1 h2 h3 unfolding t by simp
qed

text \<open>
  The claim as stated, for whitespace-delimited words, fails. The line
  \<^verbatim>\<open>a<TAB>b c d e f g h i j\<close> has 10 whitespace-delimited words, the first 9 being
  \<^verbatim>\<open>a\<close> to \<^verbatim>\<open>i\<close>. The tokenizer returns 9 tokens all the same, but they are
  \<^verbatim>\<open>a<TAB>b\<close>, \<^verbatim>\<open>c\<close>, ..., \<^verbatim>\<open>j\<close>: the tab does not split the first token, and the
  tenth whitespace-delimited word \<^verbatim>\<open>j\<close> is kept, not dropped.
\<close>

theorem parse_command_line_tab_line:
  "length (whitespace_words (''a'' @ [TAB] @ ''b c d e f g h i j'')) = 10 \<and>
   take 9 (whitespace_words (''a'' @ [TAB] @ ''b c d e f g h i j'')) =
     [''a'', ''b'', ''c'', ''d'', ''e'', ''f'', ''g'', ''h'', ''i''] \<and>
   parse_command_line 0 (replicate 10 None)
     \<lparr>bytes = ''a'' @ [TAB] @ ''b c d e f g h i j'' @ [NUL], strtok_save = None\<rparr> =
     Some (9,
       [Some 0, Some 4, Some 6, Some 8, Some 10, Some 12, Some 14, Some 16, Some 18, None],
       \<lparr>bytes = ''a'' @ [TAB] @ ''b'' @ [NUL] @ ''c'' @ [NUL] @ ''d'' @ [NUL] @ ''e'' @ [NUL] @
          ''f'' @ [NUL] @ ''g'' @ [NUL] @ ''h'' @ [NUL] @ ''i'' @ [NUL] @ ''j'' @ [NUL],
        strtok_save = Some 19\<rparr>) \<and>
   argv (''a'' @ [TAB] @ ''b'' @ [NUL] @ ''c'' @ [NUL] @ ''d'' @ [NUL] @ ''e'' @ [NUL] @
          ''f'' @ [NUL] @ ''g'' @ [NUL] @ ''h'' @ [NUL] @ ''i'' @ [NUL] @ ''j'' @ [NUL])
     [Some 0, Some 4, Some 6, Some 8, Some 10, Some 12, Some 14, Some 16, Some 18, None] =
     Some [''a'' @ [TAB] @ ''b'', ''c'', ''d'', ''e'', ''f'', ''g'', ''h'', ''i'', ''j''] \<and>
   argv (''a'' @ [TAB] @ ''b'' @ [NUL] @ ''c'' @ [NUL] @ ''d'' @ [NUL] @ ''e'' @ [NUL] @
          ''f'' @ [NUL] @ ''g'' @ [NUL] @ ''h'' @ [NUL] @ ''i'' @ [NUL] @ ''j'' @ [NUL])
     [Some 0, Some 4, Some 6, Some 8, Some 10, Some 12, Some 14, Some 16, Some 18, None] \<noteq>
     Some (take 9 (whitespace_words (''a'' @ [TAB] @ ''b c d e f g h i j'')))"
  by code_simp

lemma split_sp_no_spaces: "w \<in> set (split_sp s) \<Longrightarrow> SPACE \<notin> set w"
  by (induction s arbitrary: w) (auto split: if_splits list.splits)

lemma words_spec_no_space: "w \<in> set (words_spec s) \<Longrightarrow> SPACE \<notin> set w"
  by (auto simp: words_spec_def dest: split_sp_no_spaces)

text \<open>
  C5. For every line, \<^verbatim>\<open>parse_command_line\<close> returns the number \<open>n\<close> of tokens it
  stored (the number of words, at most 9), entry \<open>n\<close> of the vector is the null
  pointer and no entry before it is, so counting up to the first null pointer gives
  \<open>n\<close> again.
\<close>
theorem parse_command_line_terminated:
  assumes "cstr (bytes m) line_buffer = Some line" and "MAX_ARGS \<le> length args"
  shows "\<exists>n args' m'. parse_command_line line_buffer args m = Some (n, args', m') \<and>
    n = min (MAX_ARGS - 1) (length (words_spec line)) \<and>
    n < length args' \<and> args' ! n = None \<and> (\<forall>i<n. args' ! i \<noteq> None) \<and>
    argv_count args' = Some n"
proof -
  from parse_command_line_correct[OF assms]
  obtain n args' m' where r: "parse_command_line line_buffer args m = Some (n, args', m')"
    and n: "n = min (MAX_ARGS - 1) (length (words_spec line))"
    and la: "length args' = length args"
    and z: "args' ! n = None"
    and tx: "\<forall>j<n. arg_text (bytes m') (args' ! j) = Some (words_spec line ! j)"
    by (elim exE conjE) (rule that; assumption)
  have nl: "n < length args'" using n la assms(2) by (simp add: MAX_ARGS_def)
  have nn: "\<forall>i<n. args' ! i \<noteq> None"
  proof (intro allI impI)
    fix i assume "i < n"
    with tx have "arg_text (bytes m') (args' ! i) = Some (words_spec line ! i)" by simp
    from arg_text_SomeD[OF this] show "args' ! i \<noteq> None" by auto
  qed
  have "argv_count args' = Some n" by (rule argv_count_eq[OF nl z nn])
  then show ?thesis using r n nl z nn by simp
qed

theorem parse_command_line_terminated_witness:
  "cstr (bytes \<lparr>bytes = ''echo  hi'' @ [NUL], strtok_save = None\<rparr>) 0 = Some ''echo  hi'' \<and>
   MAX_ARGS \<le> length (replicate 10 (Some (7::nat))) \<and>
   (\<exists>n args' m'. parse_command_line 0 (replicate 10 (Some 7))
        \<lparr>bytes = ''echo  hi'' @ [NUL], strtok_save = None\<rparr> = Some (n, args', m') \<and>
      n = 2 \<and> n < length args' \<and> args' ! n = None \<and> (\<forall>i<n. args' ! i \<noteq> None) \<and>
      argv_count args' = Some n)"
proof -
  have w: "words_spec ''echo  hi'' = [''echo'', ''hi'']"
    by (simp add: words_spec_def)
  have h1: "cstr (bytes \<lparr>bytes = ''echo  hi'' @ [NUL], strtok_save = None\<rparr>) 0 = Some ''echo  hi''"
    by (simp add: cstr_def)
  have h2: "MAX_ARGS \<le> length (replicate 10 (Some (7::nat)))"
    by (simp add: MAX_ARGS_def)
  show ?thesis
    using parse_command_line_terminated[OF h1 h2] h1 h2 unfolding w by (simp add: MAX_ARGS_def numeral_2_eq_2)
qed

text \<open>
  C10. Every token \<^verbatim>\<open>parse_command_line\<close> stores is a pointer to a text that is not
  empty and contains no space, whatever spaces the line starts with, ends with or
  has in a row. In particular the command name, entry 0, is not empty when there
  is one.
\<close>
theorem parse_command_line_tokens_nonempty:
  assumes "cstr (bytes m) line_buffer = Some line" and "MAX_ARGS \<le> length args"
  shows "\<exists>n args' m'. parse_command_line line_buffer args m = Some (n, args', m') \<and>
    (\<forall>i<n. \<exists>p tx. args' ! i = Some p \<and> cstr (bytes m') p = Some tx \<and>
       tx \<noteq> [] \<and> SPACE \<notin> set tx)"
proof -
  from parse_command_line_correct[OF assms]
  obtain n args' m' where r: "parse_command_line line_buffer args m = Some (n, args', m')"
    and n: "n = min (MAX_ARGS - 1) (length (words_spec line))"
    and tx: "\<forall>j<n. arg_text (bytes m') (args' ! j) = Some (words_spec line ! j)"
    by (elim exE conjE) (rule that; assumption)
  have "\<exists>p tx. args' ! i = Some p \<and> cstr (bytes m') p = Some tx \<and> tx \<noteq> [] \<and> SPACE \<notin> set tx"
    if "i < n" for i
  proof -
    have "i < length (words_spec line)" using that n by simp
    then have mem: "words_spec line ! i \<in> set (words_spec line)" by simp
    from tx that have "arg_text (bytes m') (args' ! i) = Some (words_spec line ! i)" by simp
    from arg_text_SomeD[OF this] obtain p where
      "args' ! i = Some p" "cstr (bytes m') p = Some (words_spec line ! i)" by auto
    then show ?thesis
      using words_spec_nonempty[OF mem] words_spec_no_space[OF mem] by simp
  qed
  then show ?thesis using r by simp
qed

theorem parse_command_line_tokens_nonempty_witness:
  "cstr (bytes \<lparr>bytes = ''  cat   x  '' @ [NUL], strtok_save = None\<rparr>) 0 = Some ''  cat   x  '' \<and>
   MAX_ARGS \<le> length (replicate 10 (None :: ptr)) \<and>
   (\<exists>n args' m'. parse_command_line 0 (replicate 10 None)
        \<lparr>bytes = ''  cat   x  '' @ [NUL], strtok_save = None\<rparr> = Some (n, args', m') \<and>
      (\<forall>i<n. \<exists>p tx. args' ! i = Some p \<and> cstr (bytes m') p = Some tx \<and>
         tx \<noteq> [] \<and> SPACE \<notin> set tx))"
proof -
  have h1: "cstr (bytes \<lparr>bytes = ''  cat   x  '' @ [NUL], strtok_save = None\<rparr>) 0 = Some ''  cat   x  ''"
    by (simp add: cstr_def)
  have h2: "MAX_ARGS \<le> length (replicate 10 (None :: ptr))"
    by (simp add: MAX_ARGS_def)
  show ?thesis
    using parse_command_line_tokens_nonempty[OF h1 h2] h1 h2 by simp
qed

section \<open>The claims about the built-in commands\<close>

text \<open>
  C4. Whenever the first entry of the vector points to the text \<^verbatim>\<open>exit\<close>,
  \<^verbatim>\<open>execute_command\<close> prints the farewell line and ends the process through
  \<^verbatim>\<open>exit(0)\<close> instead of returning, whatever the rest of the vector holds and
  whatever the operating system would answer.
\<close>
theorem execute_command_exit:
  assumes "arg_text b a = Some ''exit''"
  shows "execute_command sys (a # rest) b tr =
    Some (Exits 0, tr @ [Printf ''Exiting simple_shell.\<newline>''])"
proof -
  from arg_text_SomeD[OF assms] obtain p where "a = Some p" "cstr b p = Some ''exit''" by auto
  then show ?thesis by (simp add: execute_command_def)
qed

theorem execute_command_exit_witness:
  "arg_text (''exit'' @ [NUL] @ ''now'' @ [NUL]) (Some 0) = Some ''exit'' \<and>
   execute_command \<lparr>fork_ret = 7, execvp_ret = None, waitpid_ret = 7\<rparr>
     [Some 0, Some 5, None] (''exit'' @ [NUL] @ ''now'' @ [NUL]) [] =
   Some (Exits 0, [Printf ''Exiting simple_shell.\<newline>''])"
proof -
  have h: "arg_text (''exit'' @ [NUL] @ ''now'' @ [NUL]) (Some 0) = Some ''exit''"
    by (simp add: arg_text_def cstr_def)
  show ?thesis
    using execute_command_exit[OF h, of "\<lparr>fork_ret = 7, execvp_ret = None, waitpid_ret = 7\<rparr>"
        "[Some 5, None]" "[]"] h by simp
qed

text \<open>
  C7. Whenever the first entry of the vector points to the text \<^verbatim>\<open>help\<close>,
  \<^verbatim>\<open>execute_command\<close> prints the ten fixed lines of the help text and returns to
  the loop, whatever the rest of the vector holds.
\<close>
theorem execute_command_help:
  assumes "arg_text b a = Some ''help''"
  shows "execute_command sys (a # rest) b tr = Some (Returns, display_help tr) \<and>
    display_help tr = tr @
     [Printf ''--- Simple Shell Help ---\<newline>'',
      Printf ''Available built-in commands:\<newline>'',
      Printf ''  help   : Display this help message.\<newline>'',
      Printf ''  exit   : Terminate the shell.\<newline>'',
      Printf ''\<newline>'',
      Printf ''Other commands are executed via the system's PATH.\<newline>'',
      Printf ''Examples:\<newline>'',
      Printf ''  ls -l\<newline>'',
      Printf ''  echo Hello World\<newline>'',
      Printf ''-------------------------\<newline>'']"
proof -
  from arg_text_SomeD[OF assms] obtain p where "a = Some p" "cstr b p = Some ''help''" by auto
  then show ?thesis by (simp add: execute_command_def display_help_def)
qed

theorem execute_command_help_witness:
  "arg_text (''help'' @ [NUL] @ ''foo'' @ [NUL]) (Some 0) = Some ''help'' \<and>
   execute_command \<lparr>fork_ret = 7, execvp_ret = None, waitpid_ret = 7\<rparr>
     [Some 0, Some 5, None] (''help'' @ [NUL] @ ''foo'' @ [NUL]) [] =
   execute_command \<lparr>fork_ret = 7, execvp_ret = None, waitpid_ret = 7\<rparr>
     [Some 0, None] (''help'' @ [NUL] @ ''foo'' @ [NUL]) []"
proof -
  have h: "arg_text (''help'' @ [NUL] @ ''foo'' @ [NUL]) (Some 0) = Some ''help''"
    by (simp add: arg_text_def cstr_def)
  show ?thesis
    using execute_command_help[OF h, of "\<lparr>fork_ret = 7, execvp_ret = None, waitpid_ret = 7\<rparr>"
        "[Some 5, None]" "[]"]
      execute_command_help[OF h, of "\<lparr>fork_ret = 7, execvp_ret = None, waitpid_ret = 7\<rparr>"
        "[None]" "[]"] h by simp
qed

lemma words_spec_blank: "set s \<subseteq> {SPACE} \<Longrightarrow> words_spec s = []"
  by (induction s) (auto simp: words_spec_Nil words_spec_space)

text \<open>
  C6. Whenever the line is empty or has spaces only, \<^verbatim>\<open>parse_command_line\<close>
  returns 0 with the null pointer in entry 0, and \<^verbatim>\<open>execute_command\<close> on that
  vector returns to the loop with the trace as it was: no output, no \<^verbatim>\<open>fork\<close>, no
  error.
\<close>
theorem blank_line_no_op:
  assumes "cstr (bytes m) line_buffer = Some line" and "set line \<subseteq> {SPACE}"
    and "MAX_ARGS \<le> length args"
  shows "\<exists>args' m'. parse_command_line line_buffer args m = Some (0, args', m') \<and>
    args' ! 0 = None \<and> argv_count args' = Some 0 \<and>
    execute_command sys args' (bytes m') tr = Some (Returns, tr)"
proof -
  from parse_command_line_correct[OF assms(1,3)]
  obtain n args' m' where r: "parse_command_line line_buffer args m = Some (n, args', m')"
    and n: "n = min (MAX_ARGS - 1) (length (words_spec line))"
    and la: "length args' = length args"
    and z: "args' ! n = None"
    by (elim exE conjE) (rule that; assumption)
  have n0: "n = 0" using n words_spec_blank[OF assms(2)] by simp
  have "args' \<noteq> []" using la assms(3) by (auto simp: MAX_ARGS_def)
  then obtain rest where a: "args' = None # rest" using z n0 by (cases args') auto
  show ?thesis using r n0 a by (simp add: execute_command_def)
qed

theorem blank_line_no_op_witness:
  "cstr (bytes \<lparr>bytes = ''   '' @ [NUL], strtok_save = None\<rparr>) 0 = Some ''   '' \<and>
   set ''   '' \<subseteq> {SPACE} \<and> MAX_ARGS \<le> length (replicate 10 (Some (1::nat))) \<and>
   (\<exists>args' m'. parse_command_line 0 (replicate 10 (Some 1))
        \<lparr>bytes = ''   '' @ [NUL], strtok_save = None\<rparr> = Some (0, args', m') \<and>
      args' ! 0 = None \<and> argv_count args' = Some 0 \<and>
      execute_command \<lparr>fork_ret = 7, execvp_ret = None, waitpid_ret = 7\<rparr> args' (bytes m') [] =
        Some (Returns, []))"
proof -
  have h1: "cstr (bytes \<lparr>bytes = ''   '' @ [NUL], strtok_save = None\<rparr>) 0 = Some ''   ''"
    by (simp add: cstr_def)
  have h2: "set ''   '' \<subseteq> {SPACE}" by simp
  have h3: "MAX_ARGS \<le> length (replicate 10 (Some (1::nat)))" by (simp add: MAX_ARGS_def)
  show ?thesis
    using blank_line_no_op[OF h1 h2 h3] h1 h2 h3 by simp
qed

section \<open>The claims about the line reader and the main loop\<close>

lemma strcspn_terminated:
  "strcspn (xs @ NUL # r) rej = Some (length (takeWhile (\<lambda>c. c \<noteq> NUL \<and> c \<notin> set rej) xs))"
  by (induction xs) auto

lemma fgets_chunk_length: "length (fgets_chunk n s) \<le> n"
  by (induction n s rule: fgets_chunk.induct) auto

lemma read_command_line_data:
  assumes "0 < n" and "n \<le> length b"
  shows "\<exists>b'. read_command_line (FgetsData s) b n tr =
      Some (0, b', tr @ [Printf ''simple_shell> '', Fflush]) \<and>
    length b' = length b \<and>
    cstr b' 0 = Some (takeWhile (\<lambda>c. c \<noteq> NUL \<and> c \<noteq> NEWLINE) (fgets_chunk (n - 1) s))"
proof -
  define chunk where "chunk = fgets_chunk (n - 1) s"
  define ln where "ln = takeWhile (\<lambda>c. c \<noteq> NUL \<and> c \<noteq> NEWLINE) chunk"
  define rs where "rs = dropWhile (\<lambda>c. c \<noteq> NUL \<and> c \<noteq> NEWLINE) chunk"
  define b1 where "b1 = chunk @ [NUL] @ drop (length chunk + 1) b"
  have lc: "length chunk + 1 \<le> length b"
    using fgets_chunk_length[of "n - 1" s] assms by (simp add: chunk_def)
  have l1: "length b1 = length b" using lc by (simp add: b1_def)
  have fg: "fgets b n (FgetsData s) = Some (True, b1)"
    using assms by (simp add: fgets_def b1_def chunk_def Let_def)
  have sc: "strcspn b1 ''\<newline>'' = Some (length ln)"
    using strcspn_terminated[of chunk "drop (length chunk + 1) b" "''\<newline>''"]
    by (simp add: b1_def ln_def)
  have ch: "chunk = ln @ rs" by (simp add: ln_def rs_def)
  obtain c r where cr: "rs @ [NUL] @ drop (length chunk + 1) b = c # r"
    by (cases rs) auto
  have "b1 = ln @ c # r" using ch cr by (simp add: b1_def)
  then have up: "b1[length ln := NUL] = ln @ NUL # r" by simp
  have z: "NUL \<notin> set ln" unfolding ln_def by (auto dest: set_takeWhileD)
  have cs: "cstr (b1[length ln := NUL]) 0 = Some ln"
    using z up by (intro cstr_decomp) auto
  have r: "read_command_line (FgetsData s) b n tr =
      Some (0, b1[length ln := NUL], tr @ [Printf ''simple_shell> '', Fflush])"
    by (simp add: read_command_line_def fg sc)
  show ?thesis
    unfolding r using cs l1 by (simp add: ln_def chunk_def)
qed

text \<open>
  C2, as amended. \<^verbatim>\<open>read_command_line\<close> returns the same status \<open>-1\<close> at the end of
  the input and after a read error, and \<open>0\<close> when a line was read. The two failures
  differ only in what is printed: the farewell on standard output at the end of the
  input, \<^verbatim>\<open>perror("fgets error")\<close> after an error.
\<close>
theorem read_command_line_status:
  assumes "0 < n" and "n \<le> length b"
  shows "read_command_line (FgetsNull True) b n tr =
      Some (- 1, b, tr @ [Printf ''simple_shell> '', Fflush,
        Printf ''\<newline>Exiting shell...\<newline>'']) \<and>
    read_command_line (FgetsNull False) b n tr =
      Some (- 1, b, tr @ [Printf ''simple_shell> '', Fflush, Perror ''fgets error'']) \<and>
    (\<exists>b'. read_command_line (FgetsData s) b n tr =
      Some (0, b', tr @ [Printf ''simple_shell> '', Fflush]))"
proof -
  from read_command_line_data[OF assms, of s tr] obtain b' where
    "read_command_line (FgetsData s) b n tr = Some (0, b', tr @ [Printf ''simple_shell> '', Fflush])"
    by blast
  then show ?thesis using assms by (simp add: read_command_line_def fgets_def)
qed

theorem read_command_line_status_witness:
  "0 < MAX_LINE_LENGTH \<and> MAX_LINE_LENGTH \<le> length (replicate 256 NUL) \<and>
   read_command_line (FgetsNull True) (replicate 256 NUL) MAX_LINE_LENGTH [] =
      Some (- 1, replicate 256 NUL, [Printf ''simple_shell> '', Fflush,
        Printf ''\<newline>Exiting shell...\<newline>'']) \<and>
   read_command_line (FgetsNull False) (replicate 256 NUL) MAX_LINE_LENGTH [] =
      Some (- 1, replicate 256 NUL, [Printf ''simple_shell> '', Fflush, Perror ''fgets error'']) \<and>
   (\<exists>b'. read_command_line (FgetsData ''ls\<newline>'') (replicate 256 NUL) MAX_LINE_LENGTH [] =
      Some (0, b', [Printf ''simple_shell> '', Fflush]))"
proof -
  have h1: "0 < MAX_LINE_LENGTH" by (simp add: MAX_LINE_LENGTH_def)
  have h2: "MAX_LINE_LENGTH \<le> length (replicate 256 NUL)" by (simp add: MAX_LINE_LENGTH_def)
  show ?thesis
    using read_command_line_status[OF h1 h2, of "[]" "''ls\<newline>''"] h1 h2 by simp
qed

text \<open>
  The claim as stated fails: on a buffer of 256 bytes the status at the end of the
  input and the status after a read error are both \<open>-1\<close>.
\<close>

theorem read_command_line_same_status:
  "map_option fst
     (read_command_line (FgetsNull True) (replicate 256 NUL) MAX_LINE_LENGTH []) = Some (- 1) \<and>
   map_option fst
     (read_command_line (FgetsNull False) (replicate 256 NUL) MAX_LINE_LENGTH []) = Some (- 1)"
  by (simp add: read_command_line_def fgets_def MAX_LINE_LENGTH_def)

lemma fgets_chunk_Cons:
  "fgets_chunk n (c # cs) =
     (if n = 0 then [] else if c = NEWLINE then [c] else c # fgets_chunk (n - 1) cs)"
  by (cases n) auto

lemma fgets_chunk_Nil: "fgets_chunk n [] = []"
  by (cases n) auto

lemma execute_command_Returns:
  assumes "arg_text b a = Some cmd" and "cmd \<noteq> ''exit''" and "fork_ret sys \<noteq> 0"
  shows "\<exists>tr'. execute_command sys (a # rest) b tr = Some (Returns, tr')"
proof -
  from arg_text_SomeD[OF assms(1)] obtain p where "a = Some p" "cstr b p = Some cmd" by auto
  then show ?thesis using assms(2,3) by (simp add: execute_command_def Let_def)
qed

lemma shell_loop_step:
  assumes inp: "stdin e i = FgetsData s"
    and ne: "take 1 (words_spec (entered_line s)) \<noteq> [''exit'']"
    and fk: "fork_ret (sys_of e i) \<noteq> 0"
    and lb: "MAX_LINE_LENGTH \<le> length (bytes m)" and la: "MAX_ARGS \<le> length args"
  shows "\<exists>m1 args1 tr2. shell_loop (Suc fuel) e i m args tr = shell_loop fuel e (Suc i) m1 args1 tr2 \<and>
    MAX_LINE_LENGTH \<le> length (bytes m1) \<and> MAX_ARGS \<le> length args1"
proof -
  have p: "0 < MAX_LINE_LENGTH" by (simp add: MAX_LINE_LENGTH_def)
  from read_command_line_data[OF p lb, of s tr] obtain b' where
    rd: "read_command_line (FgetsData s) (bytes m) MAX_LINE_LENGTH tr =
      Some (0, b', tr @ [Printf ''simple_shell> '', Fflush])"
    and lb': "length b' = length (bytes m)"
    and cs: "cstr b' 0 = Some (entered_line s)"
    unfolding entered_line_def by blast
  let ?tr1 = "tr @ [Printf ''simple_shell> '', Fflush]"
  have cs': "cstr (bytes (m\<lparr>bytes := b'\<rparr>)) 0 = Some (entered_line s)" using cs by simp
  from parse_command_line_correct[OF cs' la]
  obtain n args1 m1 where
    pr: "parse_command_line 0 args (m\<lparr>bytes := b'\<rparr>) = Some (n, args1, m1)"
    and n: "n = min (MAX_ARGS - 1) (length (words_spec (entered_line s)))"
    and la1: "length args1 = length args"
    and z: "args1 ! n = None"
    and hi: "\<forall>i>n. args1 ! i = args ! i"
    and tx: "\<forall>j<n. arg_text (bytes m1) (args1 ! j) = Some (words_spec (entered_line s) ! j)"
    and tk: "take 0 (bytes m1) = take 0 (bytes (m\<lparr>bytes := b'\<rparr>))"
    and lb1: "length (bytes m1) = length (bytes (m\<lparr>bytes := b'\<rparr>))"
    by (elim exE conjE) (rule that; assumption)
  have "args1 \<noteq> []" using la1 la by (auto simp: MAX_ARGS_def)
  then obtain a rest where a: "args1 = a # rest" by (cases args1) auto
  have "\<exists>tr2. execute_command (sys_of e i) args1 (bytes m1) ?tr1 = Some (Returns, tr2)"
  proof (cases "n = 0")
    case True
    then have "a = None" using z a by simp
    then show ?thesis using a by (simp add: execute_command_def)
  next
    case False
    then have "0 < n" by simp
    with tx have t0: "arg_text (bytes m1) a = Some (words_spec (entered_line s) ! 0)"
      using a by auto
    have "words_spec (entered_line s) \<noteq> []" using False n by auto
    then have "words_spec (entered_line s) ! 0 \<noteq> ''exit''"
      using ne by (cases "words_spec (entered_line s)") auto
    from execute_command_Returns[OF t0 this fk] show ?thesis using a by simp
  qed
  then obtain tr2 where ex: "execute_command (sys_of e i) args1 (bytes m1) ?tr1 = Some (Returns, tr2)"
    by blast
  have "shell_loop (Suc fuel) e i m args tr = shell_loop fuel e (Suc i) m1 args1 tr2"
    by (simp add: inp rd pr ex)
  moreover have "MAX_LINE_LENGTH \<le> length (bytes m1)" using lb1 lb' lb by simp
  moreover have "MAX_ARGS \<le> length args1" using la1 la by simp
  ultimately show ?thesis by blast
qed

lemma shell_loop_ends:
  assumes "stdin e (i + k) = FgetsNull eof"
    and "\<forall>j<k. \<exists>s. stdin e (i + j) = FgetsData s \<and>
        take 1 (words_spec (entered_line s)) \<noteq> [''exit''] \<and> fork_ret (sys_of e (i + j)) \<noteq> 0"
    and "k < fuel" and "MAX_LINE_LENGTH \<le> length (bytes m)" and "MAX_ARGS \<le> length args"
  shows "\<exists>tr'. shell_loop fuel e i m args tr =
    (Return 0, tr' @ [if eof then Printf ''\<newline>Exiting shell...\<newline>'' else Perror ''fgets error''])"
  using assms
proof (induction k arbitrary: i m args tr fuel)
  case 0
  then obtain f where f: "fuel = Suc f" by (cases fuel) auto
  have p: "0 < MAX_LINE_LENGTH" by (simp add: MAX_LINE_LENGTH_def)
  have "shell_loop (Suc f) e i m args tr =
      (Return 0, (tr @ [Printf ''simple_shell> '', Fflush]) @
        [if eof then Printf ''\<newline>Exiting shell...\<newline>'' else Perror ''fgets error''])"
    using "0.prems"(1,4) p by (simp add: read_command_line_def fgets_def)
  then show ?case unfolding f by blast
next
  case (Suc k)
  then obtain f where f: "fuel = Suc f" by (cases fuel) auto
  from Suc.prems(2) obtain s where s: "stdin e i = FgetsData s"
    "take 1 (words_spec (entered_line s)) \<noteq> [''exit'']" "fork_ret (sys_of e i) \<noteq> 0"
    by force
  from shell_loop_step[OF s Suc.prems(4,5), of f tr] obtain m1 args1 tr2 where
    st: "shell_loop (Suc f) e i m args tr = shell_loop f e (Suc i) m1 args1 tr2"
    and l: "MAX_LINE_LENGTH \<le> length (bytes m1)" "MAX_ARGS \<le> length args1"
    by blast
  have a1: "stdin e (Suc i + k) = FgetsNull eof" using Suc.prems(1) by simp
  have a2: "\<forall>j<k. \<exists>s. stdin e (Suc i + j) = FgetsData s \<and>
        take 1 (words_spec (entered_line s)) \<noteq> [''exit''] \<and>
        fork_ret (sys_of e (Suc i + j)) \<noteq> 0"
  proof (intro allI impI)
    fix j assume "j < k"
    then have "Suc j < Suc k" by simp
    with Suc.prems(2) show "\<exists>s. stdin e (Suc i + j) = FgetsData s \<and>
        take 1 (words_spec (entered_line s)) \<noteq> [''exit''] \<and>
        fork_ret (sys_of e (Suc i + j)) \<noteq> 0"
      by (metis add_Suc_shift)
  qed
  have a3: "k < f" using Suc.prems(3) f by simp
  from Suc.IH[OF a1 a2 a3 l, of tr2] show ?case unfolding f st .
qed

text \<open>
  C8. Whenever the \<open>k\<close>-th call of \<^verbatim>\<open>fgets\<close> returns a null pointer, whether at the
  end of the input or after a read error, and no command before it leaves the loop
  (none is \<^verbatim>\<open>exit\<close>, and the process is the shell, not a child: \<^verbatim>\<open>fork\<close> does not
  return 0), then \<^verbatim>\<open>main\<close> terminates within \<open>k + 1\<close> iterations and returns 0, its
  last output being the farewell in the first case and the \<^verbatim>\<open>perror\<close> diagnostic in
  the second.
\<close>
theorem main_returns_0:
  assumes "stdin e k = FgetsNull eof"
    and "\<forall>j<k. \<exists>s. stdin e j = FgetsData s \<and>
        take 1 (words_spec (entered_line s)) \<noteq> [''exit''] \<and> fork_ret (sys_of e j) \<noteq> 0"
    and "k < fuel" and "length line_buffer = MAX_LINE_LENGTH" and "length args = MAX_ARGS"
  shows "\<exists>tr. main fuel e line_buffer args save =
    (Return 0, tr @ [if eof then Printf ''\<newline>Exiting shell...\<newline>'' else Perror ''fgets error''])"
  unfolding main_def
  using shell_loop_ends[of e 0 k eof fuel "\<lparr>bytes = line_buffer, strtok_save = save\<rparr>" args "[]"] assms
  by simp

theorem main_returns_0_witness:
  "stdin \<lparr>stdin = (\<lambda>i. if i = 0 then FgetsData ''ls -l\<newline>'' else FgetsNull False),
      sys_of = (\<lambda>i. \<lparr>fork_ret = 42, execvp_ret = None, waitpid_ret = 42\<rparr>)\<rparr> 1 = FgetsNull False \<and>
   (\<exists>s. stdin \<lparr>stdin = (\<lambda>i. if i = 0 then FgetsData ''ls -l\<newline>'' else FgetsNull False),
      sys_of = (\<lambda>i. \<lparr>fork_ret = 42, execvp_ret = None, waitpid_ret = 42\<rparr>)\<rparr> 0 = FgetsData s \<and>
      take 1 (words_spec (entered_line s)) \<noteq> [''exit''] \<and>
      fork_ret (sys_of \<lparr>stdin = (\<lambda>i. if i = 0 then FgetsData ''ls -l\<newline>'' else FgetsNull False),
        sys_of = (\<lambda>i. \<lparr>fork_ret = 42, execvp_ret = None, waitpid_ret = 42\<rparr>)\<rparr> 0) \<noteq> 0) \<and>
   length (replicate 256 NUL) = MAX_LINE_LENGTH \<and>
   length (replicate 10 (None :: ptr)) = MAX_ARGS \<and>
   (\<exists>tr. main 2 \<lparr>stdin = (\<lambda>i. if i = 0 then FgetsData ''ls -l\<newline>'' else FgetsNull False),
      sys_of = (\<lambda>i. \<lparr>fork_ret = 42, execvp_ret = None, waitpid_ret = 42\<rparr>)\<rparr>
      (replicate 256 NUL) (replicate 10 None) None = (Return 0, tr @ [Perror ''fgets error''])) \<and>
   main 2 \<lparr>stdin = (\<lambda>i. if i = 0 then FgetsData ''ls -l\<newline>'' else FgetsNull False),
      sys_of = (\<lambda>i. \<lparr>fork_ret = 42, execvp_ret = None, waitpid_ret = 42\<rparr>)\<rparr>
      (replicate 256 NUL) (replicate 10 None) None =
     (Return 0, [Printf ''simple_shell> '', Fflush, Fork 42, Waitpid 42 0 42,
        Printf ''simple_shell> '', Fflush, Perror ''fgets error''])"
proof -
  let ?e = "\<lparr>stdin = (\<lambda>i. if i = 0 then FgetsData ''ls -l\<newline>'' else FgetsNull False),
      sys_of = (\<lambda>i. \<lparr>fork_ret = 42, execvp_ret = None, waitpid_ret = 42\<rparr>)\<rparr>"
  have el: "entered_line ''ls -l\<newline>'' = ''ls -l''"
    by (simp add: entered_line_def MAX_LINE_LENGTH_def fgets_chunk_Cons fgets_chunk_Nil)
  have h1: "stdin ?e 1 = FgetsNull False" by simp
  have h2: "\<forall>j<1. \<exists>s. stdin ?e j = FgetsData s \<and>
      take 1 (words_spec (entered_line s)) \<noteq> [''exit''] \<and> fork_ret (sys_of ?e j) \<noteq> 0"
    by (simp add: el words_spec_def)
  have h3: "(1::nat) < 2" by simp
  have h4: "length (replicate 256 NUL) = MAX_LINE_LENGTH" by (simp add: MAX_LINE_LENGTH_def)
  have h5: "length (replicate 10 (None :: ptr)) = MAX_ARGS" by (simp add: MAX_ARGS_def)
  have run: "main 2 ?e (replicate 256 NUL) (replicate 10 None) None =
     (Return 0, [Printf ''simple_shell> '', Fflush, Fork 42, Waitpid 42 0 42,
        Printf ''simple_shell> '', Fflush, Perror ''fgets error''])"
    by code_simp
  show ?thesis
    using main_returns_0[OF h1 h2 h3 h4 h5, of None] h2 h4 h5 run by simp
qed

lemma track_append:
  "track c (xs @ ys) = (case track c xs of None \<Rightarrow> None | Some c' \<Rightarrow> track c' ys)"
  by (induction c xs rule: track.induct) auto

text \<open>What \<open>track\<close> rejects: a prompt or a second child while a child is outstanding,
  a wait for another process, a wait that does not block.\<close>

lemma track_rejects:
  "track None [Fork 42, Printf ''simple_shell> ''] = None"
  "track None [Fork 42, Fork 43] = None"
  "track None [Fork 42, Waitpid 43 0 43] = None"
  "track None [Fork 42, Waitpid 42 1 0] = None"
  "track None [Fork 42, Waitpid 42 0 42, Printf ''simple_shell> ''] = Some None"
  by simp_all

lemma read_command_line_track:
  assumes "read_command_line inp b n tr = Some (st, b', tr1)" and "track None tr = Some None"
  shows "track None tr1 = Some None"
  using assms
  by (auto simp: read_command_line_def track_append Let_def
      split: option.splits if_splits bool.splits prod.splits)

lemma execute_command_track:
  assumes "execute_command sys args b tr = Some (oc, tr')" and "track None tr = Some None"
    and "- 1 \<le> fork_ret sys"
  shows "track None tr' = Some None"
  using assms
  by (auto simp: execute_command_def display_help_def track_append Let_def
      split: option.splits if_splits list.splits)

lemma shell_loop_track:
  assumes "track None tr = Some None" and "\<forall>i. - 1 \<le> fork_ret (sys_of e i)"
  shows "track None (snd (shell_loop fuel e i m args tr)) = Some None"
  using assms(1)
proof (induction fuel arbitrary: i m args tr)
  case 0
  then show ?case by simp
next
  case (Suc fuel)
  show ?case
  proof (cases "read_command_line (stdin e i) (bytes m) MAX_LINE_LENGTH tr")
    case None
    then show ?thesis using Suc.prems by simp
  next
    case (Some r)
    obtain st b tr1 where r: "r = (st, b, tr1)" by (cases r) auto
    have t1: "track None tr1 = Some None"
      using read_command_line_track[OF Some[unfolded r] Suc.prems] .
    show ?thesis
    proof (cases "st = - 1")
      case True
      then show ?thesis using Some r t1 by simp
    next
      case False
      show ?thesis
      proof (cases "parse_command_line 0 args (m\<lparr>bytes := b\<rparr>)")
        case None
        then show ?thesis using Some r False t1 by simp
      next
        case p: (Some q)
        obtain n args1 m1 where q: "q = (n, args1, m1)" by (cases q) auto
        show ?thesis
        proof (cases "execute_command (sys_of e i) args1 (bytes m1) tr1")
          case None
          then show ?thesis using Some r False p q t1 by simp
        next
          case x: (Some y)
          obtain oc tr2 where y: "y = (oc, tr2)" by (cases y) auto
          have t2: "track None tr2 = Some None"
            using execute_command_track[OF x[unfolded y] t1] assms(2) by simp
          show ?thesis
            using Some r False p q x y t2 Suc.IH[OF t2] by (cases oc) simp_all
        qed
      qed
    qed
  qed
qed

text \<open>
  C9. Provided \<^verbatim>\<open>fork\<close> returns what POSIX allows (\<open>-1\<close>, \<open>0\<close> or a process id),
  the trace of every run of \<^verbatim>\<open>main\<close>, however long, passes \<open>track\<close> and ends with
  no child outstanding: a child is spawned only when none is outstanding, every
  wait is a blocking \<^verbatim>\<open>waitpid\<close> for exactly the outstanding child, and the prompt
  is printed only when every child has been waited for. For one external command in the parent, \<^verbatim>\<open>execute_command\<close> calls
  \<^verbatim>\<open>fork\<close>, then \<^verbatim>\<open>waitpid\<close> with the process id \<^verbatim>\<open>fork\<close> returned and options 0,
  and only then returns to the loop.
\<close>
theorem children_waited_for:
  assumes "\<forall>i. - 1 \<le> fork_ret (sys_of e i)"
  shows "track None (snd (main fuel e line_buffer args save)) = Some None \<and>
    (\<forall>sys a rest b tr cmd. arg_text b a = Some cmd \<and> cmd \<noteq> ''exit'' \<and> cmd \<noteq> ''help'' \<and>
       0 < fork_ret sys \<longrightarrow>
       execute_command sys (a # rest) b tr =
         Some (Returns, tr @ [Fork (fork_ret sys), Waitpid (fork_ret sys) 0 (waitpid_ret sys)] @
           (if waitpid_ret sys = - 1 then [Perror ''waitpid error''] else [])))"
proof -
  have "track None (snd (main fuel e line_buffer args save)) = Some None"
    unfolding main_def using shell_loop_track[OF _ assms] by simp
  moreover have "execute_command sys (a # rest) b tr =
         Some (Returns, tr @ [Fork (fork_ret sys), Waitpid (fork_ret sys) 0 (waitpid_ret sys)] @
           (if waitpid_ret sys = - 1 then [Perror ''waitpid error''] else []))"
    if "arg_text b a = Some cmd" "cmd \<noteq> ''exit''" "cmd \<noteq> ''help''" "0 < fork_ret sys"
    for sys a rest b tr cmd
  proof -
    from arg_text_SomeD[OF that(1)] obtain p where "a = Some p" "cstr b p = Some cmd" by auto
    then show ?thesis using that(2,3,4) by (simp add: execute_command_def Let_def)
  qed
  ultimately show ?thesis by blast
qed

theorem children_waited_for_witness:
  "(\<forall>i. - 1 \<le> fork_ret (sys_of
      \<lparr>stdin = (\<lambda>i. if i = 0 then FgetsData ''ls -l\<newline>'' else FgetsNull True),
       sys_of = (\<lambda>i. \<lparr>fork_ret = 42, execvp_ret = None, waitpid_ret = 42\<rparr>)\<rparr> i)) \<and>
   track None (snd (main 2
      \<lparr>stdin = (\<lambda>i. if i = 0 then FgetsData ''ls -l\<newline>'' else FgetsNull True),
       sys_of = (\<lambda>i. \<lparr>fork_ret = 42, execvp_ret = None, waitpid_ret = 42\<rparr>)\<rparr>
      (replicate 256 NUL) (replicate 10 None) None)) = Some None \<and>
   snd (main 2
      \<lparr>stdin = (\<lambda>i. if i = 0 then FgetsData ''ls -l\<newline>'' else FgetsNull True),
       sys_of = (\<lambda>i. \<lparr>fork_ret = 42, execvp_ret = None, waitpid_ret = 42\<rparr>)\<rparr>
      (replicate 256 NUL) (replicate 10 None) None) =
     [Printf ''simple_shell> '', Fflush, Fork 42, Waitpid 42 0 42,
      Printf ''simple_shell> '', Fflush, Printf ''\<newline>Exiting shell...\<newline>''] \<and>
   arg_text (''ls'' @ [NUL]) (Some 0) = Some ''ls'' \<and>
   execute_command \<lparr>fork_ret = 42, execvp_ret = None, waitpid_ret = 42\<rparr> [Some 0, None]
     (''ls'' @ [NUL]) [] = Some (Returns, [Fork 42, Waitpid 42 0 42])"
proof -
  let ?e = "\<lparr>stdin = (\<lambda>i. if i = 0 then FgetsData ''ls -l\<newline>'' else FgetsNull True),
       sys_of = (\<lambda>i. \<lparr>fork_ret = 42, execvp_ret = None, waitpid_ret = 42\<rparr>)\<rparr>"
  have h: "\<forall>i. - 1 \<le> fork_ret (sys_of ?e i)" by simp
  have a: "arg_text (''ls'' @ [NUL]) (Some 0) = Some ''ls''"
    by (simp add: arg_text_def cstr_def)
  from children_waited_for[OF h, of 2 "replicate 256 NUL" "replicate 10 None" None]
  have t: "track None (snd (main 2 ?e (replicate 256 NUL) (replicate 10 None) None)) = Some None"
    and x: "\<And>sys a rest b tr cmd. arg_text b a = Some cmd \<Longrightarrow> cmd \<noteq> ''exit'' \<Longrightarrow> cmd \<noteq> ''help'' \<Longrightarrow>
       0 < fork_ret sys \<Longrightarrow>
       execute_command sys (a # rest) b tr =
         Some (Returns, tr @ [Fork (fork_ret sys), Waitpid (fork_ret sys) 0 (waitpid_ret sys)] @
           (if waitpid_ret sys = - 1 then [Perror ''waitpid error''] else []))"
    by blast+
  have "execute_command \<lparr>fork_ret = 42, execvp_ret = None, waitpid_ret = 42\<rparr> [Some 0, None]
     (''ls'' @ [NUL]) [] = Some (Returns, [Fork 42, Waitpid 42 0 42])"
    using x[OF a, of "\<lparr>fork_ret = 42, execvp_ret = None, waitpid_ret = 42\<rparr>" "[None]" "[]"] by simp
  moreover have "snd (main 2 ?e (replicate 256 NUL) (replicate 10 None) None) =
     [Printf ''simple_shell> '', Fflush, Fork 42, Waitpid 42 0 42,
      Printf ''simple_shell> '', Fflush, Printf ''\<newline>Exiting shell...\<newline>'']"
    by code_simp
  ultimately show ?thesis using h t a by simp
qed

end
